theory Spec2Isabelle
  imports Main "HOL-Library.Word"
begin

unbundle bit_operations_syntax

section \<open>Data model\<close>

text \<open>
  A JavaScript string is modelled as a \<^typ>\<open>string\<close>, the bytes of its UTF-8 encoding.
  The only character the code inspects is the separator \<open>/\<close>, which is one code unit in
  UTF-16 and one byte in UTF-8 and is part of no longer sequence, so the segments of a
  text are the same in both views.
\<close>

type_synonym uint8array = "8 word list"

text \<open>
  The exceptions of the program: \<open>Error msg\<close> is \<open>throw new Error(msg)\<close>, and
  \<open>TypeError\<close> is what the runtime raises on a property read of \<open>undefined\<close>.
\<close>

datatype error = Error string | TypeError

subsection \<open>Provider record keys (index.js, lines 21-36)\<close>

text \<open>
  \<open>String.prototype.split\<close> with a one-character separator: the text between
  consecutive occurrences of the separator, in order; the empty string yields one empty
  segment. The scan keeps the segment read so far in \<open>segment\<close>.
\<close>

fun split_from :: "'a \<Rightarrow> 'a list \<Rightarrow> 'a list \<Rightarrow> 'a list list" where
  "split_from sep segment [] = [segment]"
| "split_from sep segment (c # cs) =
     (if c = sep then segment # split_from sep [] cs
      else split_from sep (segment @ [c]) cs)"

definition split :: "'a \<Rightarrow> 'a list \<Rightarrow> 'a list list" where
  "split sep s = split_from sep [] s"

record provider_key =
  cid :: string
  peerId :: string

text \<open>The message of the exception thrown on line 29; the spec calls it \<open>MalformedKey\<close>.\<close>

definition MalformedKey :: "string \<Rightarrow> error" where
  "MalformedKey key = Error (''incorrectly formatted provider entry key in datastore: '' @ key)"

definition parseProviderKey :: "string \<Rightarrow> error + provider_key" where
  "parseProviderKey key =
     (let parts = split (CHR ''/'') key
      in if length parts \<noteq> 4 then Inl (MalformedKey key)
         else Inr \<lparr>cid = parts ! 2, peerId = parts ! 3\<rparr>)"

subsection \<open>Content identifiers (index.js, lines 70-84)\<close>

text \<open>
  Modelled from the spec: \<open>crypto\<close> is a library whose code is not part of the
  repository; the spec's contract is the SHA-256 digest of the content. The program
  obtains it through a hash object that is created, fed and finalised. Hash objects are
  mutable and live in the runtime, so the runtime is an explicit store: the list of the
  hash objects created so far, a reference being a position in it. An object keeps the
  name of its algorithm and the bytes fed to it. The digest function itself
  (\<open>hash_fn\<close>, from the algorithm name and the data to the digest) is a parameter.
  A program obtains a reference from \<open>createHash\<close> only, so the references it uses are
  positions of the store.
\<close>

record hash_object =
  algorithm :: string
  data :: uint8array

type_synonym runtime = "hash_object list"

definition createHash :: "string \<Rightarrow> runtime \<Rightarrow> nat \<times> runtime" where
  "createHash name rt = (length rt, rt @ [\<lparr>algorithm = name, data = []\<rparr>])"

text \<open>\<open>hash.update(content)\<close> appends the bytes of the text and returns the object.\<close>

definition hash_update :: "nat \<Rightarrow> string \<Rightarrow> runtime \<Rightarrow> nat \<times> runtime" where
  "hash_update h content rt =
     (h, rt[h := (rt ! h)\<lparr>data := data (rt ! h) @ map of_char content\<rparr>])"

definition hash_digest ::
  "(string \<Rightarrow> uint8array \<Rightarrow> uint8array) \<Rightarrow> nat \<Rightarrow> runtime \<Rightarrow> uint8array \<times> runtime"
where
  "hash_digest hash_fn h rt = (hash_fn (algorithm (rt ! h)) (data (rt ! h)), rt)"

text \<open>
  Modelled from the spec: the package \<open>multihashes\<close> is not part of the repository. The
  spec's contract: the digest is wrapped in a multihash tagged with the SHA-256 function
  code. The layout is that of the multihash format: the function code and the length of
  the digest, each as an unsigned variable-length integer (seven bits per byte, least
  significant group first, the top bit set on every byte but the last), then the digest.
  Of the table of function names only the entry the program uses is modelled.
\<close>

function varint :: "nat \<Rightarrow> uint8array" where
  "varint n = (if n < 128 then [of_nat n] else of_nat (n mod 128 + 128) # varint (n div 128))"
  by pat_completeness auto
termination
  by (relation "measure (\<lambda>n. n)") auto

declare varint.simps [simp del]

definition coerceCode :: "string \<Rightarrow> nat option" where
  "coerceCode name = (if name = ''sha2-256'' then Some 0x12 else None)"

definition multihash_encode :: "uint8array \<Rightarrow> string \<Rightarrow> error + uint8array" where
  "multihash_encode digest_bytes name =
     (case coerceCode name of
        None \<Rightarrow> Inl (Error (''Unrecognized hash function named: '' @ name))
      | Some code \<Rightarrow> Inr (varint code @ varint (length digest_bytes) @ digest_bytes))"

text \<open>
  Modelled from the spec: the Base58 text of a multihash, computed by a library that is
  not part of the repository. Base58 with the Bitcoin alphabet: every leading zero byte
  becomes the character \<open>1\<close>, and the bytes, read as a big-endian number, are written
  in base 58 without leading zero digits. Decoding reverses this and fails on a character
  outside the alphabet.
\<close>

definition base58_alphabet :: string where
  "base58_alphabet = ''123456789ABCDEFGHJKLMNPQRSTUVWXYZabcdefghijkmnopqrstuvwxyz''"

function to_base :: "nat \<Rightarrow> nat \<Rightarrow> nat list" where
  "to_base b n = (if n = 0 \<or> b < 2 then [] else to_base b (n div b) @ [n mod b])"
  by pat_completeness auto
termination
  by (relation "measure (\<lambda>(b, n). n)") auto

declare to_base.simps [simp del]

definition from_base :: "nat \<Rightarrow> nat list \<Rightarrow> nat" where
  "from_base b ds = foldl (\<lambda>n d. b * n + d) 0 ds"

definition multihash_toB58String :: "uint8array \<Rightarrow> string" where
  "multihash_toB58String bytes =
     (let zeroes = length (takeWhile (\<lambda>b. b = 0) bytes);
          b58 = to_base 58 (from_base 256 (map unat bytes))
      in replicate zeroes (CHR ''1'') @ map (\<lambda>d. base58_alphabet ! d) b58)"

fun base_map :: "string \<Rightarrow> nat \<Rightarrow> char \<Rightarrow> nat option" where
  "base_map [] k c = None"
| "base_map (a # as) k c = (if c = a then Some k else base_map as (k + 1) c)"

fun base58_digits :: "string \<Rightarrow> nat list option" where
  "base58_digits [] = Some []"
| "base58_digits (c # cs) =
     (case base_map base58_alphabet 0 c of
        None \<Rightarrow> None
      | Some d \<Rightarrow> (case base58_digits cs of None \<Rightarrow> None | Some ds \<Rightarrow> Some (d # ds)))"

definition multihash_fromB58String :: "string \<Rightarrow> error + uint8array" where
  "multihash_fromB58String s =
     (let zeroes = length (takeWhile (\<lambda>c. c = CHR ''1'') s)
      in case base58_digits (dropWhile (\<lambda>c. c = CHR ''1'') s) of
           None \<Rightarrow> Inl (Error ''Non-base58 character'')
         | Some ds \<Rightarrow>
             Inr (replicate zeroes 0 @ map of_nat (to_base 256 (from_base 58 ds))))"

text \<open>
  Modelled from the spec: the package \<open>cids\<close> is not part of the repository. The spec's
  contract: a content identifier is a versioned identifier wrapping a multihash, of
  version 0 in this system; built from a Base58 text it wraps the multihash that the
  text stands for.
\<close>

record CID =
  version :: nat
  multihash :: uint8array

definition new_CID :: "string \<Rightarrow> error + CID" where
  "new_CID s =
     (case multihash_fromB58String s of
        Inl e \<Rightarrow> Inl e
      | Inr mh \<Rightarrow> Inr \<lparr>version = 0, multihash = mh\<rparr>)"

text \<open>
  \<open>create_CID\<close> itself, lines 79-84. It takes the runtime and returns it with the
  result, which is the identifier or the exception of a library call.
\<close>

definition create_CID ::
  "(string \<Rightarrow> uint8array \<Rightarrow> uint8array) \<Rightarrow> string \<Rightarrow> runtime \<Rightarrow> (error + CID) \<times> runtime"
where
  "create_CID hash_fn content rt =
     (let (h, rt1) = createHash ''sha256'' rt;
          (h', rt2) = hash_update h content rt1;
          (digest_bytes, rt3) = hash_digest hash_fn h' rt2
      in case multihash_encode digest_bytes ''sha2-256'' of
           Inl e \<Rightarrow> (Inl e, rt3)
         | Inr encoded \<Rightarrow> (new_CID (multihash_toB58String encoded), rt3))"

text \<open>The SHA-256 digest of a content: the digest function at the bytes of the text.\<close>

definition sha256_digest :: "(string \<Rightarrow> uint8array \<Rightarrow> uint8array) \<Rightarrow> string \<Rightarrow> uint8array" where
  "sha256_digest hash_fn content = hash_fn ''sha256'' (map of_char content)"

subsection \<open>Peers and nodes\<close>

text \<open>
  A peer identifier as the code reads it: \<open>toB58String\<close> is the result of the method
  call \<open>peerId.toB58String()\<close>, \<open>idB58String\<close> is the property \<open>_idB58String\<close> read on
  line 127. The model does not assume that the two agree.
\<close>

record PeerId =
  toB58String :: string
  idB58String :: string

type_synonym multiaddr = string

text \<open>
  A started node, reduced to what the program touches: \<open>node.peerId\<close>,
  \<open>node.multiaddrs\<close>, the address book \<open>node.peerStore.addressBook\<close> and the routing
  capability \<open>node._dht.getClosestPeers\<close>, whose lazy result is a finite list.
\<close>

record libp2p =
  node_peerId :: PeerId
  multiaddrs :: "multiaddr list"
  addressBook :: "PeerId \<rightharpoonup> multiaddr list"
  dht_getClosestPeers :: "uint8array \<Rightarrow> PeerId list"

subsection \<open>Closest peers (index.js, lines 109-131)\<close>

text \<open>
  Modelled from the spec: \<open>uint8arrays/from-string\<close> is a library function whose code is
  not part of the repository; the keyspace point is derived from the lookup text as its
  raw bytes, not hashed.
\<close>

definition uint8ArrayFromString :: "string \<Rightarrow> uint8array" where
  "uint8ArrayFromString s = map of_char s"

text \<open>
  \<open>Array.prototype.findIndex\<close>: the position of the first element that satisfies the
  predicate, or \<open>-1\<close> when there is none.
\<close>

fun findIndex_from :: "('a \<Rightarrow> bool) \<Rightarrow> 'a list \<Rightarrow> int \<Rightarrow> int" where
  "findIndex_from p [] k = - 1"
| "findIndex_from p (x # xs) k = (if p x then k else findIndex_from p xs (k + 1))"

definition findIndex :: "('a \<Rightarrow> bool) \<Rightarrow> 'a list \<Rightarrow> int" where
  "findIndex p xs = findIndex_from p xs 0"

text \<open>The body of the \<open>for await\<close> loop of lines 126-129, one returned peer per step.\<close>

fun for_await_push :: "libp2p list \<Rightarrow> PeerId list \<Rightarrow> int list \<Rightarrow> int list" where
  "for_await_push peers [] closest_peers = closest_peers"
| "for_await_push peers (sorted_peer # rest) closest_peers =
     (let peer = findIndex
                   (\<lambda>element. toB58String (node_peerId element) = idB58String sorted_peer) peers
      in for_await_push peers rest (closest_peers @ [peer]))"

text \<open>
  \<open>peers[0]\<close> of an empty array is \<open>undefined\<close>, and reading \<open>_dht\<close> from it raises a
  \<open>TypeError\<close>.
\<close>

definition sort_closest_nodes_dht :: "libp2p list \<Rightarrow> string \<Rightarrow> error + int list" where
  "sort_closest_nodes_dht peers query =
     (let query_key = uint8ArrayFromString query
      in case peers of
           [] \<Rightarrow> Inl TypeError
         | first_peer # _ \<Rightarrow>
             (let sorted_peers = dht_getClosestPeers first_peer query_key
              in Inr (for_await_push peers sorted_peers [])))"

subsection \<open>Harness set-up (index.js, lines 134-142)\<close>

text \<open>
  Modelled from the spec: the address book is an object of the network library, whose
  code is not part of the repository; \<open>addressBook.set(peerId, multiaddrs)\<close> seeds the
  entry of the address book for that peer with the given set of addresses.
\<close>

definition addressBook_set :: "libp2p \<Rightarrow> PeerId \<Rightarrow> multiaddr list \<Rightarrow> libp2p" where
  "addressBook_set node pid addrs = node\<lparr>addressBook := (addressBook node)(pid \<mapsto> addrs)\<rparr>"

text \<open>
  \<open>createNode\<close> builds and starts a node through the network library. It is a parameter
  that threads the state \<^typ>\<open>'w\<close> of the outside world and may fail. The first loop of
  the program calls it while \<open>index < 40\<close>.
\<close>

function start_nodes ::
  "('w \<Rightarrow> error + libp2p \<times> 'w) \<Rightarrow> nat \<Rightarrow> libp2p list \<Rightarrow> 'w \<Rightarrow> error + libp2p list \<times> 'w"
where
  "start_nodes createNode index nodes w =
     (if index < 40 then
        (case createNode w of
           Inl e \<Rightarrow> Inl e
         | Inr (node, w') \<Rightarrow> start_nodes createNode (index + 1) (nodes @ [node]) w')
      else Inr (nodes, w))"
  by pat_completeness auto
termination
  by (relation "measure (\<lambda>(createNode, index, nodes, w). 40 - index)") auto

declare start_nodes.simps [simp del]

text \<open>
  The second loop, \<open>for (index = 0; index < nodes.length - 1; index++)\<close>. The bound is
  computed over the integers, as the program does: it is \<open>-1\<close> for an empty array.
\<close>

function link_nodes :: "nat \<Rightarrow> libp2p list \<Rightarrow> libp2p list" where
  "link_nodes index nodes =
     (if int index < int (length nodes) - 1 then
        link_nodes (index + 1)
          (nodes[index := addressBook_set (nodes ! index)
                            (node_peerId (nodes ! (index + 1)))
                            (multiaddrs (nodes ! (index + 1)))])
      else nodes)"
  by pat_completeness auto
termination
  by (relation "measure (\<lambda>(index, nodes). length nodes - index)") auto

declare link_nodes.simps [simp del]

definition harness_setup ::
  "('w \<Rightarrow> error + libp2p \<times> 'w) \<Rightarrow> 'w \<Rightarrow> error + libp2p list \<times> 'w"
where
  "harness_setup createNode w =
     (case start_nodes createNode 0 [] w of
        Inl e \<Rightarrow> Inl e
      | Inr (nodes, w') \<Rightarrow> Inr (link_nodes 0 nodes, w'))"

subsection \<open>XOR distance\<close>

text \<open>
  Modelled from the spec: the program only imports the package \<open>xor-distance\<close> (line 18)
  and its code is not part of the repository. The spec's contract: the distance of two
  keyspace points is the bitwise exclusive-or of the two equal-length bit strings, and the
  operation fails with \<open>LengthMismatch\<close> when the lengths differ. Keyspace points are
  byte arrays.
\<close>

datatype distance_error = LengthMismatch

definition distance :: "uint8array \<Rightarrow> uint8array \<Rightarrow> distance_error + uint8array" where
  "distance a b =
     (if length a \<noteq> length b then Inl LengthMismatch else Inr (map2 (XOR) a b))"

subsection \<open>Example inputs\<close>

text \<open>
  Small concrete inputs at which the theorems below are instantiated: a peer whose two
  texts agree, a node around it whose routing capability yields a fixed list, a node
  factory whose world state counts the nodes created so far, and the nodes that forty
  calls of it produce.
\<close>

definition example_peer :: "string \<Rightarrow> PeerId" where
  "example_peer b58 = \<lparr>toB58String = b58, idB58String = b58\<rparr>"

definition example_node :: "string \<Rightarrow> PeerId list \<Rightarrow> libp2p" where
  "example_node b58 closest =
     \<lparr>node_peerId = example_peer b58, multiaddrs = [''/ip4/127.0.0.1/tcp/'' @ b58],
      addressBook = Map.empty, dht_getClosestPeers = (\<lambda>key. closest)\<rparr>"

definition example_createNode :: "nat \<Rightarrow> error + libp2p \<times> nat" where
  "example_createNode k = Inr (example_node (replicate (Suc k) (CHR ''Q'')) [], Suc k)"

definition example_started :: "libp2p list" where
  "example_started = map (\<lambda>k. example_node (replicate (Suc k) (CHR ''Q'')) []) [0..<40]"

section \<open>Provider record keys: properties\<close>

lemma length_split_from:
  "length (split_from sep segment s) = Suc (length (filter (\<lambda>c. c = sep) s))"
  by (induction s arbitrary: segment) simp_all

lemma split_from_no_sep: "sep \<notin> set s \<Longrightarrow> split_from sep segment s = [segment @ s]"
  by (induction s arbitrary: segment) auto

lemma split_from_append_sep:
  "sep \<notin> set a \<Longrightarrow>
     split_from sep segment (a @ sep # b) = (segment @ a) # split_from sep [] b"
  by (induction a arbitrary: segment) auto

lemma length_split: "length (split sep s) = Suc (length (filter (\<lambda>c. c = sep) s))"
  by (simp add: split_def length_split_from)

lemma split_no_sep: "sep \<notin> set s \<Longrightarrow> split sep s = [s]"
  by (simp add: split_def split_from_no_sep)

lemma split_append_sep:
  "sep \<notin> set a \<Longrightarrow> split sep (a @ sep # b) = a # split sep b"
  by (simp add: split_def split_from_append_sep)

text \<open>
  Claim C2. \<open>parseProviderKey\<close> raises the malformed-key exception exactly when splitting
  the key at \<open>/\<close> gives a number of segments other than 4, and it returns normally on every
  key with exactly 4 segments.
\<close>

theorem parseProviderKey_MalformedKey_iff:
  "(parseProviderKey key = Inl (MalformedKey key)) = (length (split (CHR ''/'') key) \<noteq> 4)
   \<and> isl (parseProviderKey key) = (length (split (CHR ''/'') key) \<noteq> 4)
   \<and> (length (split (CHR ''/'') key) = 4 \<longrightarrow> (\<exists>r. parseProviderKey key = Inr r))"
  by (simp add: parseProviderKey_def Let_def)

text \<open>The spec's example \<open>/providers/onlyonecid\<close> has 3 segments and is rejected.\<close>

theorem parseProviderKey_MalformedKey_iff_witness:
  "parseProviderKey ''/providers/onlyonecid'' = Inl (MalformedKey ''/providers/onlyonecid'')
   \<and> length (split (CHR ''/'') ''/providers/onlyonecid'') = 3
   \<and> length (split (CHR ''/'') ''/providers/QmCid/peer32'') = 4
   \<and> (\<exists>r. parseProviderKey ''/providers/QmCid/peer32'' = Inr r)"
  using parseProviderKey_MalformedKey_iff [of "''/providers/onlyonecid''"]
    parseProviderKey_MalformedKey_iff [of "''/providers/QmCid/peer32''"]
  by (simp add: split_def)

text \<open>
  A key of the shape \<open>/providers/<cidText>/<peerText>\<close> has exactly four segments
  only if neither text contains the separator, and then its segments are the empty
  text, \<open>providers\<close> and the two texts.
\<close>

lemma well_formed_key_no_sep:
  assumes "length (split (CHR ''/'') (''/providers/'' @ cidText @ ''/'' @ peerText)) = 4"
  shows "CHR ''/'' \<notin> set cidText \<and> CHR ''/'' \<notin> set peerText"
proof -
  from assms have "length (filter (\<lambda>c. c = CHR ''/'') cidText)
      + length (filter (\<lambda>c. c = CHR ''/'') peerText) = 0"
    by (simp add: length_split)
  then show ?thesis
    by (auto simp: filter_empty_conv)
qed

lemma split_provider_key:
  assumes "CHR ''/'' \<notin> set cidText" and "CHR ''/'' \<notin> set peerText"
  shows "split (CHR ''/'') (''/providers/'' @ cidText @ ''/'' @ peerText)
         = ['''', ''providers'', cidText, peerText]"
proof -
  have a: "split (CHR ''/'') (cidText @ CHR ''/'' # peerText) = [cidText, peerText]"
    using assms by (simp add: split_append_sep split_no_sep)
  have "split (CHR ''/'') (''providers'' @ CHR ''/'' # (cidText @ CHR ''/'' # peerText))
        = ''providers'' # split (CHR ''/'') (cidText @ CHR ''/'' # peerText)"
    by (rule split_append_sep) simp
  with a have b: "split (CHR ''/'') (''providers/'' @ cidText @ CHR ''/'' # peerText)
        = [''providers'', cidText, peerText]" by simp
  have "split (CHR ''/'') ([] @ CHR ''/'' # (''providers/'' @ cidText @ CHR ''/'' # peerText))
        = [] # split (CHR ''/'') (''providers/'' @ cidText @ CHR ''/'' # peerText)"
    by (rule split_append_sep) simp
  with b show ?thesis by simp
qed

text \<open>
  Claim C3. Round trip: for a well-formed key (exactly four segments) that is the
  concatenation of \<open>/providers/\<close>, \<open>cidText\<close>, \<open>/\<close> and \<open>peerText\<close>, \<open>parseProviderKey\<close>
  returns exactly the two texts.
\<close>

theorem parseProviderKey_roundtrip:
  assumes "key = ''/providers/'' @ cidText @ ''/'' @ peerText"
    and "length (split (CHR ''/'') key) = 4"
  shows "parseProviderKey key = Inr \<lparr>cid = cidText, peerId = peerText\<rparr>"
proof -
  from assms have "CHR ''/'' \<notin> set cidText \<and> CHR ''/'' \<notin> set peerText"
    using well_formed_key_no_sep by blast
  then have "split (CHR ''/'') key = ['''', ''providers'', cidText, peerText]"
    using assms(1) split_provider_key by blast
  then show ?thesis
    by (simp add: parseProviderKey_def)
qed

theorem parseProviderKey_roundtrip_witness:
  "length (split (CHR ''/'') ''/providers/QmCid/peer32'') = 4
   \<and> parseProviderKey ''/providers/QmCid/peer32'' = Inr \<lparr>cid = ''QmCid'', peerId = ''peer32''\<rparr>"
proof -
  have k: "''/providers/QmCid/peer32'' = ''/providers/'' @ ''QmCid'' @ ''/'' @ ''peer32''" by simp
  have l: "length (split (CHR ''/'') ''/providers/QmCid/peer32'') = 4" by (simp add: split_def)
  from parseProviderKey_roundtrip [OF k l] l show ?thesis by simp
qed

text \<open>
  Claim C9. \<open>parseProviderKey\<close> checks the number of segments and nothing else: every key
  that splits into exactly four segments is accepted, and the result is the third and the
  fourth segment, whatever the first two are and also when segments are empty.
\<close>

theorem parseProviderKey_counts_only:
  assumes "split (CHR ''/'') key = [s0, s1, s2, s3]"
  shows "parseProviderKey key = Inr \<lparr>cid = s2, peerId = s3\<rparr>"
  using assms by (simp add: parseProviderKey_def)

theorem parseProviderKey_counts_only_witness:
  "split (CHR ''/'') ''x/notproviders//'' = [''x'', ''notproviders'', '''', '''']
   \<and> parseProviderKey ''x/notproviders//'' = Inr \<lparr>cid = '''', peerId = ''''\<rparr>"
proof -
  have s: "split (CHR ''/'') ''x/notproviders//'' = [''x'', ''notproviders'', '''', '''']"
    by (simp add: split_def)
  from parseProviderKey_counts_only [OF s] s show ?thesis by simp
qed

section \<open>Closest peers: properties\<close>

text \<open>With an empty roster there is no first node to ask, and the call fails.\<close>

lemma sort_closest_nodes_dht_empty_roster: "sort_closest_nodes_dht [] query = Inl TypeError"
  by (simp add: sort_closest_nodes_dht_def)

lemma for_await_push_eq:
  "for_await_push peers sorted_peers acc =
     acc @ map (\<lambda>sorted_peer. findIndex
                  (\<lambda>element. toB58String (node_peerId element) = idB58String sorted_peer) peers)
             sorted_peers"
  by (induction sorted_peers arbitrary: acc) (simp_all add: Let_def)

lemma findIndex_from_none:
  "0 \<le> k \<Longrightarrow> (findIndex_from p xs k = - 1) = (\<forall>x \<in> set xs. \<not> p x)"
proof (induction xs arbitrary: k)
  case Nil
  show ?case by simp
next
  case (Cons x xs)
  from Cons.prems have "0 \<le> k + 1" by simp
  from Cons.IH [OF this] Cons.prems show ?case by auto
qed

lemma findIndex_from_found:
  "0 \<le> k \<Longrightarrow> findIndex_from p xs k \<noteq> - 1 \<Longrightarrow>
     k \<le> findIndex_from p xs k \<and> findIndex_from p xs k < k + int (length xs)
     \<and> p (xs ! nat (findIndex_from p xs k - k))
     \<and> (\<forall>j < nat (findIndex_from p xs k - k). \<not> p (xs ! j))"
proof (induction xs arbitrary: k)
  case Nil
  then show ?case by simp
next
  case (Cons x xs)
  show ?case
  proof (cases "p x")
    case True
    then show ?thesis by simp
  next
    case False
    let ?r = "findIndex_from p xs (k + 1)"
    from False Cons.prems have ne: "?r \<noteq> - 1" by simp
    from Cons.prems have k1: "0 \<le> k + 1" by simp
    note ih = Cons.IH [OF k1 ne]
    from ih have idx: "nat (?r - k) = Suc (nat (?r - (k + 1)))" by linarith
    have "\<forall>j < nat (?r - k). \<not> p ((x # xs) ! j)"
    proof (intro allI impI)
      fix j assume j: "j < nat (?r - k)"
      show "\<not> p ((x # xs) ! j)"
      proof (cases j)
        case 0
        with False show ?thesis by simp
      next
        case (Suc j')
        with j idx have "j' < nat (?r - (k + 1))" by simp
        with ih Suc show ?thesis by simp
      qed
    qed
    with ih idx False show ?thesis by simp
  qed
qed

lemma findIndex_none: "(findIndex p xs = - 1) = (\<forall>x \<in> set xs. \<not> p x)"
  by (simp add: findIndex_def findIndex_from_none)

lemma findIndex_found:
  "findIndex p xs \<noteq> - 1 \<Longrightarrow>
     0 \<le> findIndex p xs \<and> findIndex p xs < int (length xs)
     \<and> p (xs ! nat (findIndex p xs)) \<and> (\<forall>j < nat (findIndex p xs). \<not> p (xs ! j))"
  using findIndex_from_found [of 0 p xs] by (simp add: findIndex_def)

lemma sort_closest_nodes_dht_eq:
  assumes "peers \<noteq> []"
    and "dht_getClosestPeers (hd peers) (uint8ArrayFromString query) = sorted_peers"
  shows "sort_closest_nodes_dht peers query =
     Inr (map (\<lambda>sorted_peer. findIndex
                  (\<lambda>element. toB58String (node_peerId element) = idB58String sorted_peer) peers)
             sorted_peers)"
  using assms
  by (cases peers) (simp_all add: sort_closest_nodes_dht_def Let_def for_await_push_eq)

text \<open>A roster of two nodes; the capability yields the second, a stranger and the first.\<close>

lemma sort_closest_example:
  "sort_closest_nodes_dht
     [example_node ''QmA'' [example_peer ''QmB'', example_peer ''QmZ'', example_peer ''QmA''],
      example_node ''QmB'' []] ''hello world!'' = Inr [1, - 1, 0]"
  by (simp add: sort_closest_nodes_dht_def findIndex_def Let_def example_node_def example_peer_def)

text \<open>
  Claim C4. On a non-empty roster, for the finite sequence that the routing capability
  of the first node returns, the output has one position per returned peer, in the order
  received: the \<open>i\<close>-th output resolves the \<open>i\<close>-th returned peer, being the first roster
  position whose text matches it, or \<open>-1\<close> when no roster entry matches.
\<close>

theorem sort_closest_nodes_dht_mirrors_order:
  assumes "peers \<noteq> []"
    and "dht_getClosestPeers (hd peers) (uint8ArrayFromString query) = sorted_peers"
  shows "\<exists>out. sort_closest_nodes_dht peers query = Inr out
     \<and> length out = length sorted_peers
     \<and> (\<forall>i < length sorted_peers.
          (out ! i = - 1
             \<and> (\<forall>element \<in> set peers.
                   toB58String (node_peerId element) \<noteq> idB58String (sorted_peers ! i)))
          \<or> (0 \<le> out ! i \<and> out ! i < int (length peers)
             \<and> toB58String (node_peerId (peers ! nat (out ! i))) = idB58String (sorted_peers ! i)
             \<and> (\<forall>j < nat (out ! i).
                   toB58String (node_peerId (peers ! j)) \<noteq> idB58String (sorted_peers ! i))))"
proof -
  let ?idx = "\<lambda>sorted_peer. findIndex
      (\<lambda>element. toB58String (node_peerId element) = idB58String sorted_peer) peers"
  let ?out = "map ?idx sorted_peers"
  have r: "sort_closest_nodes_dht peers query = Inr ?out"
    using assms by (rule sort_closest_nodes_dht_eq)
  have "(?out ! i = - 1
             \<and> (\<forall>element \<in> set peers.
                   toB58String (node_peerId element) \<noteq> idB58String (sorted_peers ! i)))
          \<or> (0 \<le> ?out ! i \<and> ?out ! i < int (length peers)
             \<and> toB58String (node_peerId (peers ! nat (?out ! i))) = idB58String (sorted_peers ! i)
             \<and> (\<forall>j < nat (?out ! i).
                   toB58String (node_peerId (peers ! j)) \<noteq> idB58String (sorted_peers ! i)))"
    if i: "i < length sorted_peers" for i
  proof (cases "?idx (sorted_peers ! i) = - 1")
    case True
    with i show ?thesis by (simp add: findIndex_none)
  next
    case False
    from findIndex_found [OF False] i show ?thesis by simp
  qed
  with r show ?thesis by simp
qed

theorem sort_closest_nodes_dht_mirrors_order_witness:
  "dht_getClosestPeers
     (hd [example_node ''QmA'' [example_peer ''QmB'', example_peer ''QmZ'', example_peer ''QmA''],
          example_node ''QmB'' []])
     (uint8ArrayFromString ''hello world!'')
     = [example_peer ''QmB'', example_peer ''QmZ'', example_peer ''QmA'']
   \<and> sort_closest_nodes_dht
     [example_node ''QmA'' [example_peer ''QmB'', example_peer ''QmZ'', example_peer ''QmA''],
      example_node ''QmB'' []] ''hello world!'' = Inr [1, - 1, 0]"
proof -
  let ?roster = "[example_node ''QmA''
                    [example_peer ''QmB'', example_peer ''QmZ'', example_peer ''QmA''],
                  example_node ''QmB'' []]"
  let ?yielded = "[example_peer ''QmB'', example_peer ''QmZ'', example_peer ''QmA'']"
  have ne: "?roster \<noteq> []" by simp
  have cap: "dht_getClosestPeers (hd ?roster) (uint8ArrayFromString ''hello world!'') = ?yielded"
    by (simp add: example_node_def)
  from sort_closest_nodes_dht_mirrors_order [OF ne cap] cap sort_closest_example
  show ?thesis by simp
qed

text \<open>
  Claim C10. The returned list is as long as the sequence of yielded identifiers, and
  every identifier with no matching roster entry contributes \<open>-1\<close>.
\<close>

theorem sort_closest_nodes_dht_length_sentinel:
  assumes "peers \<noteq> []"
    and "dht_getClosestPeers (hd peers) (uint8ArrayFromString query) = sorted_peers"
  shows "\<exists>out. sort_closest_nodes_dht peers query = Inr out
     \<and> length out = length sorted_peers
     \<and> (\<forall>i < length sorted_peers.
          (\<forall>element \<in> set peers.
              toB58String (node_peerId element) \<noteq> idB58String (sorted_peers ! i))
          \<longrightarrow> out ! i = - 1)"
  using sort_closest_nodes_dht_eq [OF assms] by (simp add: findIndex_none)

theorem sort_closest_nodes_dht_length_sentinel_witness:
  "[example_node ''QmA'' [example_peer ''QmB'', example_peer ''QmZ'', example_peer ''QmA''],
    example_node ''QmB'' []] \<noteq> []
   \<and> length [example_peer ''QmB'', example_peer ''QmZ'', example_peer ''QmA''] = 3
   \<and> (\<exists>out. sort_closest_nodes_dht
        [example_node ''QmA'' [example_peer ''QmB'', example_peer ''QmZ'', example_peer ''QmA''],
         example_node ''QmB'' []] ''hello world!'' = Inr out
        \<and> length out = 3 \<and> out ! 1 = - 1)"
proof -
  let ?roster = "[example_node ''QmA''
                    [example_peer ''QmB'', example_peer ''QmZ'', example_peer ''QmA''],
                  example_node ''QmB'' []]"
  let ?yielded = "[example_peer ''QmB'', example_peer ''QmZ'', example_peer ''QmA'']"
  have ne: "?roster \<noteq> []" by simp
  have cap: "dht_getClosestPeers (hd ?roster) (uint8ArrayFromString ''hello world!'') = ?yielded"
    by (simp add: example_node_def)
  have stranger: "\<forall>element \<in> set ?roster.
      toB58String (node_peerId element) \<noteq> idB58String (?yielded ! 1)"
    by (simp add: example_node_def example_peer_def)
  from sort_closest_nodes_dht_length_sentinel [OF ne cap]
  obtain out where out: "sort_closest_nodes_dht ?roster ''hello world!'' = Inr out"
    and len: "length out = length ?yielded"
    and sentinel: "\<forall>i < length ?yielded.
          (\<forall>element \<in> set ?roster.
              toB58String (node_peerId element) \<noteq> idB58String (?yielded ! i))
          \<longrightarrow> out ! i = - 1"
    by blast
  from sentinel stranger have "out ! 1 = - 1" by simp
  with out len show ?thesis by simp
qed

text \<open>
  Claim C1, as stated, fails: the capability yields a peer that is not in the roster,
  and the call returns \<open>[-1]\<close> instead of failing.
\<close>

theorem sort_closest_nodes_dht_unknown_peer_counterexample:
  "dht_getClosestPeers (example_node ''QmA'' [example_peer ''QmZ''])
       (uint8ArrayFromString ''hello world!'') = [example_peer ''QmZ'']
   \<and> toB58String (node_peerId (example_node ''QmA'' [example_peer ''QmZ'']))
       \<noteq> idB58String (example_peer ''QmZ'')
   \<and> \<not> isl (sort_closest_nodes_dht [example_node ''QmA'' [example_peer ''QmZ'']] ''hello world!'')
   \<and> sort_closest_nodes_dht [example_node ''QmA'' [example_peer ''QmZ'']] ''hello world!''
       = Inr [- 1]"
  by (simp add: sort_closest_nodes_dht_def findIndex_def Let_def example_node_def example_peer_def)

text \<open>
  Claim C1, as amended. A returned peer identifier that matches no roster entry does not
  make \<open>sort_closest_nodes_dht\<close> fail: the call returns normally and records \<open>-1\<close> at the
  position of that identifier.
\<close>

theorem sort_closest_nodes_dht_unknown_peer_recorded:
  assumes "peers \<noteq> []"
    and "dht_getClosestPeers (hd peers) (uint8ArrayFromString query) = sorted_peers"
    and "i < length sorted_peers"
    and "\<forall>element \<in> set peers.
           toB58String (node_peerId element) \<noteq> idB58String (sorted_peers ! i)"
  shows "\<exists>out. sort_closest_nodes_dht peers query = Inr out \<and> out ! i = - 1"
  using sort_closest_nodes_dht_eq [OF assms(1,2)] assms(3,4) by (simp add: findIndex_none)

theorem sort_closest_nodes_dht_unknown_peer_recorded_witness:
  "dht_getClosestPeers
     (hd [example_node ''QmA'' [example_peer ''QmB'', example_peer ''QmZ''],
          example_node ''QmB'' []])
     (uint8ArrayFromString ''hello world!'') = [example_peer ''QmB'', example_peer ''QmZ'']
   \<and> toB58String (node_peerId (example_node ''QmA'' [example_peer ''QmB'', example_peer ''QmZ'']))
       \<noteq> idB58String (example_peer ''QmZ'')
   \<and> toB58String (node_peerId (example_node ''QmB'' [])) \<noteq> idB58String (example_peer ''QmZ'')
   \<and> (\<exists>out. sort_closest_nodes_dht
        [example_node ''QmA'' [example_peer ''QmB'', example_peer ''QmZ''],
         example_node ''QmB'' []] ''hello world!'' = Inr out
        \<and> out ! 1 = - 1)"
proof -
  let ?roster = "[example_node ''QmA'' [example_peer ''QmB'', example_peer ''QmZ''],
                  example_node ''QmB'' []]"
  let ?yielded = "[example_peer ''QmB'', example_peer ''QmZ'']"
  have ne: "?roster \<noteq> []" by simp
  have cap: "dht_getClosestPeers (hd ?roster) (uint8ArrayFromString ''hello world!'') = ?yielded"
    by (simp add: example_node_def)
  have pos: "1 < length ?yielded" by simp
  have stranger: "\<forall>element \<in> set ?roster.
      toB58String (node_peerId element) \<noteq> idB58String (?yielded ! 1)"
    by (simp add: example_node_def example_peer_def)
  from sort_closest_nodes_dht_unknown_peer_recorded [OF ne cap pos stranger] cap stranger
  show ?thesis by simp
qed

section \<open>XOR distance: properties\<close>

lemma map2_xor_commute: "map2 (XOR) a b = map2 (XOR) b (a :: uint8array)"
proof (induction a arbitrary: b)
  case Nil
  show ?case by simp
next
  case (Cons x xs)
  show ?case
  proof (cases b)
    case Nil
    then show ?thesis by simp
  next
    case (Cons y ys)
    with Cons.IH [of ys] show ?thesis by (simp add: xor.commute)
  qed
qed

lemma map2_xor_self: "map2 (XOR) a a = replicate (length a) (0 :: 8 word)"
  by (induction a) simp_all

text \<open>
  Claim C7. For keyspace points \<open>a\<close> and \<open>b\<close> of equal length the distance is defined
  and symmetric, and the distance of a point to itself is the all-zero value.
\<close>

theorem distance_symmetric_identity:
  assumes "length a = length b"
  shows "distance a b = distance b a
     \<and> (\<exists>d. distance a b = Inr d \<and> length d = length a)
     \<and> distance a a = Inr (replicate (length a) 0)"
  using assms by (simp add: distance_def map2_xor_commute [of a b] map2_xor_self)

theorem distance_symmetric_identity_witness:
  "length [0x0F, 0xF0 :: 8 word] = length [0xFF, 0x01 :: 8 word]
   \<and> distance [0x0F, 0xF0] [0xFF, 0x01] = Inr [0xF0, 0xF1]
   \<and> distance [0xFF, 0x01] [0x0F, 0xF0] = Inr [0xF0, 0xF1]
   \<and> distance [0x0F, 0xF0] [0x0F, 0xF0] = Inr [0, 0]"
  using distance_symmetric_identity [of "[0x0F, 0xF0]" "[0xFF, 0x01]"]
  by (simp add: distance_def)

section \<open>Content identifiers: properties\<close>

subsection \<open>Positional notation\<close>

text \<open>Writing a number in a base and reading it back are inverse to each other.\<close>

lemma from_base_snoc: "from_base b (ds @ [d]) = b * from_base b ds + d"
  by (simp add: from_base_def)

lemma from_to_base: "2 \<le> b \<Longrightarrow> from_base b (to_base b n) = n"
proof (induction b n rule: to_base.induct)
  case (1 b n)
  show ?case
  proof (cases "n = 0")
    case True
    have "to_base b 0 = []" by (subst to_base.simps) simp
    with True show ?thesis by (simp add: from_base_def)
  next
    case False
    with "1.prems" have c: "\<not> (n = 0 \<or> b < 2)" by simp
    from "1.IH" [OF c "1.prems"] c show ?thesis
      by (simp add: to_base.simps [of b n] from_base_snoc)
  qed
qed

lemma to_base_digits: "d \<in> set (to_base b n) \<Longrightarrow> d < b"
proof (induction b n rule: to_base.induct)
  case (1 b n)
  show ?case
  proof (cases "n = 0 \<or> b < 2")
    case True
    with "1.prems" show ?thesis by (simp add: to_base.simps [of b n])
  next
    case False
    with "1.prems" "1.IH" show ?thesis
      by (auto simp: to_base.simps [of b n])
  qed
qed

lemma to_base_hd: "to_base b n \<noteq> [] \<Longrightarrow> hd (to_base b n) \<noteq> 0"
proof (induction b n rule: to_base.induct)
  case (1 b n)
  have c: "\<not> (n = 0 \<or> b < 2)"
  proof
    assume "n = 0 \<or> b < 2"
    then have "to_base b n = []" by (subst to_base.simps) simp
    with "1.prems" show False by contradiction
  qed
  show ?case
  proof (cases "to_base b (n div b) = []")
    case True
    then have "n div b = 0" using c from_to_base [of b "n div b"] by (simp add: from_base_def)
    with c have "n mod b = n" by (simp add: div_eq_0_iff)
    with True c show ?thesis by (simp add: to_base.simps [of b n])
  next
    case False
    from "1.IH" [OF c False] False c show ?thesis
      by (simp add: to_base.simps [of b n])
  qed
qed

lemma from_base_pos: "ds \<noteq> [] \<Longrightarrow> hd ds \<noteq> 0 \<Longrightarrow> 0 < b \<Longrightarrow> 0 < from_base b ds"
proof (induction ds rule: rev_induct)
  case Nil
  then show ?case by simp
next
  case (snoc d ds)
  show ?case
  proof (cases "ds = []")
    case True
    with snoc.prems show ?thesis by (simp add: from_base_def)
  next
    case False
    with snoc have "0 < from_base b ds" by simp
    with snoc.prems show ?thesis by (simp add: from_base_snoc)
  qed
qed

lemma to_from_base:
  "2 \<le> b \<Longrightarrow> \<forall>d \<in> set ds. d < b \<Longrightarrow> ds = [] \<or> hd ds \<noteq> 0 \<Longrightarrow> to_base b (from_base b ds) = ds"
proof (induction ds rule: rev_induct)
  case Nil
  show ?case by (simp add: from_base_def to_base.simps [of b 0])
next
  case (snoc d ds)
  from snoc.prems have d: "d < b" by simp
  have ih: "to_base b (from_base b ds) = ds"
  proof (rule snoc.IH)
    show "2 \<le> b" by fact
    show "\<forall>d \<in> set ds. d < b" using snoc.prems by simp
    show "ds = [] \<or> hd ds \<noteq> 0" using snoc.prems by (cases ds) auto
  qed
  have pos: "0 < b * from_base b ds + d"
  proof (cases "ds = []")
    case True
    with snoc.prems show ?thesis by (simp add: from_base_def)
  next
    case False
    with snoc.prems have "hd ds \<noteq> 0" by (cases ds) auto
    with False snoc.prems have "0 < from_base b ds" by (simp add: from_base_pos)
    with snoc.prems show ?thesis by simp
  qed
  from d have dv: "(b * from_base b ds + d) div b = from_base b ds"
    and md: "(b * from_base b ds + d) mod b = d" by simp_all
  from pos snoc.prems(1) have c: "\<not> (b * from_base b ds + d = 0 \<or> b < 2)" by simp
  have "to_base b (b * from_base b ds + d)
      = to_base b ((b * from_base b ds + d) div b) @ [(b * from_base b ds + d) mod b]"
    by (subst to_base.simps) (simp only: c if_False)
  with ih dv md show ?case by (simp add: from_base_snoc)
qed


subsection \<open>Base58 text\<close>

lemma base_map_nth:
  "distinct xs \<Longrightarrow> i < length xs \<Longrightarrow> base_map xs k (xs ! i) = Some (k + i)"
proof (induction xs arbitrary: k i)
  case Nil
  then show ?case by simp
next
  case (Cons a xs)
  show ?case
  proof (cases i)
    case 0
    then show ?thesis by simp
  next
    case (Suc j)
    with Cons.prems have j: "j < length xs" and ne: "xs ! j \<noteq> a" by auto
    from Cons.IH [of j "k + 1"] Cons.prems j have "base_map xs (k + 1) (xs ! j) = Some (k + 1 + j)"
      by simp
    with ne Suc show ?thesis by simp
  qed
qed

lemma base58_alphabet_distinct: "distinct base58_alphabet"
  by (simp add: base58_alphabet_def)

lemma base58_alphabet_length: "length base58_alphabet = 58"
  by (simp add: base58_alphabet_def)

lemma base58_digits_map:
  "\<forall>d \<in> set ds. d < 58 \<Longrightarrow> base58_digits (map (\<lambda>d. base58_alphabet ! d) ds) = Some ds"
proof (induction ds)
  case Nil
  show ?case by simp
next
  case (Cons d ds)
  then have "base_map base58_alphabet 0 (base58_alphabet ! d) = Some (0 + d)"
    by (intro base_map_nth) (simp_all add: base58_alphabet_distinct base58_alphabet_length)
  with Cons show ?case by simp
qed

lemma base58_alphabet_leader:
  "d < 58 \<Longrightarrow> (base58_alphabet ! d = CHR ''1'') = (d = 0)"
proof -
  assume d: "d < 58"
  have z: "base58_alphabet ! 0 = CHR ''1''" by (simp add: base58_alphabet_def)
  from d have "(base58_alphabet ! d = base58_alphabet ! 0) = (d = 0)"
    using base58_alphabet_distinct by (simp add: nth_eq_iff_index_eq base58_alphabet_length)
  with z show ?thesis by simp
qed

lemma takeWhile_zero_bytes:
  "takeWhile (\<lambda>b. b = 0) bytes = replicate (length (takeWhile (\<lambda>b. b = 0) bytes)) (0 :: 8 word)"
  by (induction bytes) simp_all

lemma from_base_leading_zeros:
  "from_base b ds = from_base b (dropWhile (\<lambda>d. d = 0) ds)"
proof -
  have "foldl (\<lambda>n d. b * n + d) 0 ds = foldl (\<lambda>n d. b * n + d) 0 (dropWhile (\<lambda>d. d = 0) ds)"
    by (induction ds) simp_all
  then show ?thesis by (simp add: from_base_def)
qed

lemma bytes_of_nat_of_bytes:
  assumes "bytes = [] \<or> hd bytes \<noteq> (0 :: 8 word)"
  shows "map of_nat (to_base 256 (from_base 256 (map unat bytes))) = bytes"
proof -
  have "\<forall>d \<in> set (map unat bytes). d < 256"
  proof
    fix d assume "d \<in> set (map unat bytes)"
    then obtain w :: "8 word" where "d = unat w" by auto
    then show "d < 256" using unsigned_less [of w, where ?'a = nat] by simp
  qed
  moreover from assms have "map unat bytes = [] \<or> hd (map unat bytes) \<noteq> 0"
    by (cases bytes) (simp_all add: unsigned_eq_0_iff)
  ultimately have "to_base 256 (from_base 256 (map unat bytes)) = map unat bytes"
    by (intro to_from_base) simp_all
  then show ?thesis by (simp add: comp_def)
qed

text \<open>Decoding the Base58 text of a byte array gives the byte array back.\<close>

lemma fromB58String_toB58String:
  "multihash_fromB58String (multihash_toB58String bytes) = Inr bytes"
proof -
  let ?z = "length (takeWhile (\<lambda>b. b = 0) bytes)"
  let ?rest = "dropWhile (\<lambda>b. b = 0) bytes"
  let ?n = "from_base 256 (map unat bytes)"
  let ?ds = "to_base 58 ?n"
  let ?text = "map (\<lambda>d. base58_alphabet ! d) ?ds"
  have digits: "\<forall>d \<in> set ?ds. d < 58" using to_base_digits by blast
  have head: "?text = [] \<or> hd ?text \<noteq> CHR ''1''"
  proof (cases "?ds = []")
    case True
    then show ?thesis by simp
  next
    case False
    then have "hd ?ds \<noteq> 0" by (rule to_base_hd)
    moreover from False digits have "hd ?ds < 58" by simp
    ultimately have "base58_alphabet ! hd ?ds \<noteq> CHR ''1''"
      by (simp add: base58_alphabet_leader)
    with False show ?thesis by (simp add: hd_map)
  qed
  have tw: "takeWhile (\<lambda>c. c = CHR ''1'') (replicate ?z (CHR ''1'') @ ?text) = replicate ?z (CHR ''1'')"
    using head by (cases ?text) (simp_all add: takeWhile_append)
  have dw: "dropWhile (\<lambda>c. c = CHR ''1'') (replicate ?z (CHR ''1'') @ ?text) = ?text"
    using head by (cases ?text) (simp_all add: dropWhile_append)
  have digits_back: "base58_digits ?text = Some ?ds"
    using digits by (rule base58_digits_map)
  have n: "from_base 58 ?ds = ?n" by (simp add: from_to_base)
  have "?n = from_base 256 (dropWhile (\<lambda>d. d = 0) (map unat bytes))"
    by (rule from_base_leading_zeros)
  also have "dropWhile (\<lambda>d. d = 0) (map unat bytes) = map unat ?rest"
    by (simp add: dropWhile_map comp_def unsigned_eq_0_iff)
  finally have n': "?n = from_base 256 (map unat ?rest)" .
  have "?rest = [] \<or> hd ?rest \<noteq> 0"
    using hd_dropWhile [of "\<lambda>b. b = 0" bytes] by blast
  then have bytes_back: "map of_nat (to_base 256 (from_base 256 (map unat ?rest))) = ?rest"
    by (rule bytes_of_nat_of_bytes)
  have whole: "replicate ?z 0 @ ?rest = bytes"
    using takeWhile_zero_bytes [of bytes] takeWhile_dropWhile_id [of "\<lambda>b. b = 0" bytes] by simp
  show ?thesis
    unfolding multihash_fromB58String_def multihash_toB58String_def Let_def
    using tw dw digits_back n n' bytes_back whole by simp
qed

subsection \<open>Multihash framing\<close>

text \<open>
  The length prefix of a longer digest is at least as long, so two framed digests are
  equal only if the digests are.
\<close>

lemma varint_length_mono: "n \<le> m \<Longrightarrow> length (varint n) \<le> length (varint m)"
proof (induction m arbitrary: n rule: varint.induct)
  case (1 m)
  show ?case
  proof (cases "m < 128")
    case True
    with "1.prems" have "n < 128" by simp
    with True show ?thesis
      by (simp add: varint.simps [of n] varint.simps [of m])
  next
    case False
    show ?thesis
    proof (cases "n < 128")
      case True
      with False show ?thesis by (simp add: varint.simps [of n] varint.simps [of m])
    next
      case nbig: False
      from "1.prems" have "n div 128 \<le> m div 128" by (rule div_le_mono)
      from "1.IH" [OF False this] False nbig show ?thesis
        by (simp add: varint.simps [of n] varint.simps [of m])
    qed
  qed
qed

lemma varint_prefix_inj:
  assumes "varint (length d1) @ d1 = varint (length d2) @ d2"
  shows "d1 = d2"
proof -
  from assms have total: "length (varint (length d1)) + length d1
      = length (varint (length d2)) + length d2"
    by (metis length_append)
  have "length d1 = length d2"
  proof (rule ccontr)
    assume ne: "length d1 \<noteq> length d2"
    show False
    proof (cases "length d1 < length d2")
      case True
      then have "length (varint (length d1)) \<le> length (varint (length d2))"
        by (simp add: varint_length_mono)
      with True total show False by simp
    next
      case False
      with ne have gt: "length d2 < length d1" by simp
      then have "length (varint (length d2)) \<le> length (varint (length d1))"
        by (simp add: varint_length_mono)
      with gt total show False by simp
    qed
  qed
  with assms show ?thesis by simp
qed

lemma multihash_encode_inj:
  assumes "multihash_encode d1 name = Inr encoded" and "multihash_encode d2 name = Inr encoded"
  shows "d1 = d2"
proof -
  from assms obtain code where
    "varint code @ varint (length d1) @ d1 = varint code @ varint (length d2) @ d2"
    by (auto simp: multihash_encode_def split: option.splits)
  then have "varint (length d1) @ d1 = varint (length d2) @ d2" by simp
  then show ?thesis by (rule varint_prefix_inj)
qed

subsection \<open>The identifier of a content\<close>

lemma varint_sha2_256: "varint 0x12 = [0x12]"
  by (subst varint.simps) simp

lemma multihash_encode_sha2_256:
  "multihash_encode d ''sha2-256'' = Inr (varint 0x12 @ varint (length d) @ d)"
  by (simp add: multihash_encode_def coerceCode_def)

lemma new_CID_toB58String:
  "new_CID (multihash_toB58String mh) =
     Inr \<lparr>version = 0, multihash = mh\<rparr>"
  by (simp add: new_CID_def fromB58String_toB58String)

text \<open>
  The object that \<open>createHash\<close> returns is new: it is the last of the store, whatever the
  store held, and after one \<open>update\<close> it holds the bytes of that content and nothing
  else. Its digest therefore does not depend on the store.
\<close>

lemma fresh_hash_object:
  assumes "createHash name rt = (h, rt1)" and "hash_update h content rt1 = (h', rt2)"
  shows "h' = h \<and> h = length rt
     \<and> rt2 = rt @ [\<lparr>algorithm = name, data = map of_char content\<rparr>]"
  using assms by (auto simp: createHash_def hash_update_def)

lemma fresh_hash_digest:
  assumes "createHash name rt = (h, rt1)" and "hash_update h content rt1 = (h', rt2)"
  shows "hash_digest hash_fn h' rt2 = (hash_fn name (map of_char content), rt2)"
proof -
  from fresh_hash_object [OF assms]
  have "rt2 ! h' = \<lparr>algorithm = name, data = map of_char content\<rparr>" by simp
  then show ?thesis by (simp add: hash_digest_def)
qed

text \<open>
  Whatever the runtime holds, \<open>create_CID\<close> returns the identifier of version 0 that
  wraps the framed digest of the content.
\<close>

lemma create_CID_result:
  "fst (create_CID hash_fn content rt) =
     Inr \<lparr>version = 0,
          multihash = 0x12 # varint (length (sha256_digest hash_fn content))
                        @ sha256_digest hash_fn content\<rparr>"
proof -
  obtain h rt1 where a: "createHash ''sha256'' rt = (h, rt1)" by (cases "createHash ''sha256'' rt")
  obtain h' rt2 where u: "hash_update h content rt1 = (h', rt2)"
    by (cases "hash_update h content rt1")
  have d: "hash_digest hash_fn h' rt2 = (sha256_digest hash_fn content, rt2)"
    using fresh_hash_digest [OF a u] by (simp add: sha256_digest_def)
  have "fst (create_CID hash_fn content rt)
      = new_CID (multihash_toB58String
          (varint 0x12 @ varint (length (sha256_digest hash_fn content))
             @ sha256_digest hash_fn content))"
    by (simp add: create_CID_def a u d multihash_encode_sha2_256)
  then show ?thesis by (simp add: new_CID_toB58String varint_sha2_256)
qed

text \<open>A call leaves its hash object behind in the runtime.\<close>

lemma create_CID_runtime:
  "snd (create_CID hash_fn content rt) =
     rt @ [\<lparr>algorithm = ''sha256'', data = map of_char content\<rparr>]"
  by (simp add: create_CID_def createHash_def hash_update_def hash_digest_def
      multihash_encode_sha2_256)

text \<open>
  Claim C5. \<open>create_CID\<close> is deterministic: a call on the content \<open>c\<close> returns the same
  identifier in every state of the runtime, in particular when the call is repeated on
  the runtime that an earlier call on \<open>c\<close> has left behind; the identifier is the one of
  version 0 that wraps the multihash of the SHA-256 digest of \<open>c\<close>.
\<close>

theorem create_CID_deterministic:
  "fst (create_CID hash_fn c rt1) = fst (create_CID hash_fn c rt2)
   \<and> fst (create_CID hash_fn c (snd (create_CID hash_fn c rt1))) = fst (create_CID hash_fn c rt1)
   \<and> fst (create_CID hash_fn c rt1) =
       Inr \<lparr>version = 0,
            multihash = 0x12 # varint (length (sha256_digest hash_fn c))
                          @ sha256_digest hash_fn c\<rparr>"
proof -
  let ?cid = "Inr \<lparr>version = 0,
                  multihash = 0x12 # varint (length (sha256_digest hash_fn c))
                                @ sha256_digest hash_fn c\<rparr>"
  have result: "fst (create_CID hash_fn c rt) = ?cid" for rt
    by (rule create_CID_result)
  have "fst (create_CID hash_fn c rt1) = fst (create_CID hash_fn c rt2)"
    by (simp only: result)
  moreover have "fst (create_CID hash_fn c (snd (create_CID hash_fn c rt1)))
      = fst (create_CID hash_fn c rt1)"
    by (simp only: result)
  ultimately show ?thesis using result [of rt1] by simp
qed

text \<open>
  Claim C6. Two distinct contents whose SHA-256 digests differ get distinct identifiers:
  both calls return an identifier, in whatever state of the runtime, and the two
  identifiers differ.
\<close>

theorem create_CID_distinct:
  assumes "c1 \<noteq> c2"
    and differ: "sha256_digest hash_fn c1 \<noteq> sha256_digest hash_fn c2"
  shows "\<exists>cid1 cid2. fst (create_CID hash_fn c1 rt1) = Inr cid1
           \<and> fst (create_CID hash_fn c2 rt2) = Inr cid2 \<and> cid1 \<noteq> cid2"
proof -
  let ?mh = "\<lambda>c. 0x12 # varint (length (sha256_digest hash_fn c)) @ sha256_digest hash_fn c"
  have "?mh c1 \<noteq> ?mh c2"
  proof
    assume "?mh c1 = ?mh c2"
    then have "varint (length (sha256_digest hash_fn c1)) @ sha256_digest hash_fn c1
             = varint (length (sha256_digest hash_fn c2)) @ sha256_digest hash_fn c2"
      by simp
    then have "sha256_digest hash_fn c1 = sha256_digest hash_fn c2" by (rule varint_prefix_inj)
    with differ show False by contradiction
  qed
  then show ?thesis by (simp add: create_CID_result)
qed

text \<open>An instance, with the digest function that returns the data itself.\<close>

theorem create_CID_distinct_witness:
  "''hello world!'' \<noteq> ''hello world''
   \<and> sha256_digest (\<lambda>name bytes. bytes) ''hello world!''
       \<noteq> sha256_digest (\<lambda>name bytes. bytes) ''hello world''
   \<and> (\<exists>cid1 cid2. fst (create_CID (\<lambda>name bytes. bytes) ''hello world!'' []) = Inr cid1
           \<and> fst (create_CID (\<lambda>name bytes. bytes) ''hello world'' []) = Inr cid2
           \<and> cid1 \<noteq> cid2)"
proof -
  have ne: "''hello world!'' \<noteq> ''hello world''" by simp
  have differ: "sha256_digest (\<lambda>name bytes. bytes) ''hello world!''
       \<noteq> sha256_digest (\<lambda>name bytes. bytes) ''hello world''"
    by (simp add: sha256_digest_def)
  from create_CID_distinct [OF ne differ, of "[]" "[]"] ne differ show ?thesis by blast
qed

section \<open>Harness set-up: properties\<close>

lemma start_nodes_length:
  "start_nodes createNode index nodes w = Inr (started, w') \<Longrightarrow>
     length started = length nodes + (40 - index)"
proof (induction createNode index nodes w rule: start_nodes.induct)
  case (1 createNode index nodes w)
  show ?case
  proof (cases "index < 40")
    case True
    with "1.prems" obtain node w1 where c: "createNode w = Inr (node, w1)"
      and r: "start_nodes createNode (index + 1) (nodes @ [node]) w1 = Inr (started, w')"
      by (auto simp: start_nodes.simps [of createNode index nodes w] split: sum.splits)
    from "1.IH" [OF True c refl r] True show ?thesis by simp
  next
    case False
    with "1.prems" show ?thesis
      by (simp add: start_nodes.simps [of createNode index nodes w])
  qed
qed

lemma start_nodes_total:
  "(\<forall>w. \<exists>node w'. createNode w = Inr (node, w')) \<Longrightarrow>
     \<exists>started w'. start_nodes createNode index nodes w = Inr (started, w')"
proof (induction createNode index nodes w rule: start_nodes.induct)
  case (1 createNode index nodes w)
  show ?case
  proof (cases "index < 40")
    case True
    from "1.prems" obtain node w1 where c: "createNode w = Inr (node, w1)" by blast
    from "1.IH" [OF True c refl "1.prems"] True c show ?thesis
      by (simp add: start_nodes.simps [of createNode index nodes w])
  next
    case False
    then show ?thesis
      by (simp add: start_nodes.simps [of createNode index nodes w])
  qed
qed

lemma link_nodes_length: "length (link_nodes index nodes) = length nodes"
proof (induction index nodes rule: link_nodes.induct)
  case (1 index nodes)
  show ?case
  proof (cases "int index < int (length nodes) - 1")
    case True
    from "1.IH" [OF True] True show ?thesis
      by (simp add: link_nodes.simps [of index nodes])
  next
    case False
    then show ?thesis
      by (simp add: link_nodes.simps [of index nodes])
  qed
qed

lemma link_nodes_nth:
  "i < length nodes \<Longrightarrow>
     link_nodes index nodes ! i =
       (if index \<le> i \<and> i + 1 < length nodes
        then addressBook_set (nodes ! i) (node_peerId (nodes ! (i + 1))) (multiaddrs (nodes ! (i + 1)))
        else nodes ! i)"
proof (induction index nodes rule: link_nodes.induct)
  case (1 index nodes)
  show ?case
  proof (cases "int index < int (length nodes) - 1")
    case True
    let ?nodes' = "nodes[index := addressBook_set (nodes ! index)
                            (node_peerId (nodes ! (index + 1)))
                            (multiaddrs (nodes ! (index + 1)))]"
    from "1.prems" have i': "i < length ?nodes'" by simp
    note ih = "1.IH" [OF True i']
    have unfold: "link_nodes index nodes = link_nodes (index + 1) ?nodes'"
      using True by (simp add: link_nodes.simps [of index nodes])
    show ?thesis
    proof (cases "i = index")
      case eq: True
      with ih "1.prems" True unfold show ?thesis by simp
    next
      case ne: False
      show ?thesis
      proof (cases "index + 1 \<le> i \<and> i + 1 < length nodes")
        case True
        with ih ne unfold show ?thesis by simp
      next
        case False
        with ih ne unfold "1.prems" show ?thesis by auto
      qed
    qed
  next
    case False
    then have "link_nodes index nodes = nodes"
      by (simp add: link_nodes.simps [of index nodes])
    moreover from False have "\<not> (index \<le> i \<and> i + 1 < length nodes)" by linarith
    ultimately show ?thesis by auto
  qed
qed

text \<open>
  Claim C8. When the forty calls of \<open>createNode\<close> succeed, the harness has started
  exactly 40 nodes, and the linking loop has turned them into a directed chain: node \<open>i\<close>,
  for \<open>i\<close> from 0 to 38, differs from the started node only in its address book, which
  has the addresses of node \<open>i + 1\<close> stored under that node's identifier, and the last
  node is unchanged.
\<close>

theorem harness_directed_chain:
  assumes "start_nodes createNode 0 [] w = Inr (started, w')"
  shows "length started = 40
     \<and> harness_setup createNode w = Inr (link_nodes 0 started, w')
     \<and> length (link_nodes 0 started) = 40
     \<and> (\<forall>i < 39. link_nodes 0 started ! i =
           (started ! i)\<lparr>addressBook :=
              (addressBook (started ! i))
                (node_peerId (started ! (i + 1)) \<mapsto> multiaddrs (started ! (i + 1)))\<rparr>)
     \<and> link_nodes 0 started ! 39 = started ! 39"
proof -
  from start_nodes_length [OF assms] have len: "length started = 40" by simp
  have run: "harness_setup createNode w = Inr (link_nodes 0 started, w')"
    using assms by (simp add: harness_setup_def)
  have chain: "link_nodes 0 started ! i =
           (started ! i)\<lparr>addressBook :=
              (addressBook (started ! i))
                (node_peerId (started ! (i + 1)) \<mapsto> multiaddrs (started ! (i + 1)))\<rparr>"
    if "i < 39" for i
    using that len link_nodes_nth [of i started 0] by (simp add: addressBook_set_def)
  have final: "link_nodes 0 started ! 39 = started ! 39"
    using len link_nodes_nth [of 39 started 0] by simp
  from len run chain final show ?thesis by (simp add: link_nodes_length)
qed

text \<open>The run of the first loop on the counting node factory.\<close>

lemma example_start_nodes:
  "index \<le> 40 \<Longrightarrow>
   start_nodes example_createNode index nodes w =
     Inr (nodes @ map (\<lambda>k. example_node (replicate (Suc k) (CHR ''Q'')) [])
                    [w..<w + (40 - index)],
          w + (40 - index))"
proof (induction example_createNode index nodes w rule: start_nodes.induct)
  case (1 index nodes w)
  show ?case
  proof (cases "index < 40")
    case True
    let ?f = "\<lambda>k. example_node (replicate (Suc k) (CHR ''Q'')) []"
    have c: "example_createNode w = Inr (?f w, Suc w)"
      by (simp add: example_createNode_def)
    from True have le: "index + 1 \<le> 40" by simp
    from True have e1: "Suc w + (40 - (index + 1)) = w + (40 - index)" by simp
    have e2: "[w..<w + (40 - index)] = w # [Suc w..<w + (40 - index)]"
      by (rule upt_conv_Cons) (use True in simp)
    have "start_nodes example_createNode index nodes w
          = start_nodes example_createNode (index + 1) (nodes @ [?f w]) (Suc w)"
      using True c by (simp add: start_nodes.simps [of example_createNode index nodes w])
    also have "\<dots> = Inr ((nodes @ [?f w]) @ map ?f [Suc w..<Suc w + (40 - (index + 1))],
                         Suc w + (40 - (index + 1)))"
      by (rule "1.hyps" [OF True c refl le])
    also have "\<dots> = Inr (nodes @ map ?f [w..<w + (40 - index)], w + (40 - index))"
      by (simp only: e1 e2 append_assoc append_Cons append_Nil list.map)
    finally show ?thesis .
  next
    case False
    then have "start_nodes example_createNode index nodes w = Inr (nodes, w)"
      by (subst start_nodes.simps) simp
    with False "1.prems" show ?thesis by simp
  qed
qed

lemma example_started_run: "start_nodes example_createNode 0 [] 0 = Inr (example_started, 40)"
  using example_start_nodes [of 0 "[]" 0] by (simp add: example_started_def)

theorem harness_directed_chain_witness:
  "start_nodes example_createNode 0 [] 0 = Inr (example_started, 40)
   \<and> length example_started = 40
   \<and> harness_setup example_createNode 0 = Inr (link_nodes 0 example_started, 40)
   \<and> length (link_nodes 0 example_started) = 40
   \<and> addressBook (link_nodes 0 example_started ! 0)
       = [example_peer ''QQ'' \<mapsto> [''/ip4/127.0.0.1/tcp/QQ'']]
   \<and> addressBook (link_nodes 0 example_started ! 39) = Map.empty"
proof -
  note chain = harness_directed_chain [OF example_started_run]
  have n0: "example_started ! 0 = example_node ''Q'' []"
    and n1: "example_started ! 1 = example_node ''QQ'' []"
    by (simp_all add: example_started_def)
  have n39: "addressBook (example_started ! 39) = Map.empty"
    by (simp add: example_started_def example_node_def)
  from chain have "link_nodes 0 example_started ! 0 =
      (example_started ! 0)\<lparr>addressBook :=
         (addressBook (example_started ! 0))
           (node_peerId (example_started ! (0 + 1)) \<mapsto> multiaddrs (example_started ! (0 + 1)))\<rparr>"
    by simp
  with n0 n1 have first: "addressBook (link_nodes 0 example_started ! 0)
       = [example_peer ''QQ'' \<mapsto> [''/ip4/127.0.0.1/tcp/QQ'']]"
    by (simp add: example_node_def)
  from chain n39 have final: "addressBook (link_nodes 0 example_started ! 39) = Map.empty"
    by simp
  from chain first final example_started_run show ?thesis by simp
qed

end
